theory Spec2Isabelle
  imports Main
begin

section \<open>The lineage clean-up pipeline of dag\_om.py and deletarlinhagem.py\<close>

text \<open>
  The repository holds one pipeline in two entry variants: \<^verbatim>\<open>dag_om.py\<close> (tasks of a
  workflow, artifacts in object storage) and \<^verbatim>\<open>deletarlinhagem.py\<close> (a local script).
  Stages 1 to 3 have the same logic in both files, which differ there only in where the
  artifacts are kept and in the text of one URL; stage 4 (\<^verbatim>\<open>delete_lineage\<close>) differs and is embedded twice.

  The catalog service is the environment. Every HTTP call of the source goes through a
  server parameter. For the two listings and for DELETE the server maps the requests made
  so far and the current request to a response, so it may answer the same request
  differently over time; for the lineage lookup it maps the table id to a response. A
  response body is the decoded JSON. JSON objects
  are records whose fields are optional where the source reads a key that may be absent;
  a missing key read with \<^verbatim>\<open>obj[key]\<close> is the error \<open>KeyError\<close>, a missing key read with
  \<^verbatim>\<open>obj.get(key)\<close> is \<open>None\<close>. Identifiers, names and cursors are strings. Credential
  lookup, file and object-store traffic and printing are not part of the embedding.
\<close>

subsection \<open>HTTP responses and errors\<close>

datatype 'b response = Response nat 'b | RequestException

datatype error = StatusError nat | TransportError | KeyError string | FileNotFoundError string

type_synonym request = "string \<times> string option"

type_synonym 'b get_server = "request list \<Rightarrow> request \<Rightarrow> 'b response"

subsection \<open>JSON data\<close>

record entity_obj =
  fullyQualifiedName :: "string option"

record table_obj = entity_obj +
  id_key :: "string option"
  href :: "string option"
  tableType :: "string option"

record paging_info =
  after :: "string option"

record 'a page =
  data :: "'a list option"
  paging :: "paging_info option"

record edge =
  toEntity :: "string option"
  toEntityFullyQualifiedName :: "string option"
  fromEntity :: "string option"
  fromEntityFullyQualifiedName :: "string option"
  lineageDetails :: "string option"

record lineage =
  entity :: "entity_obj option"
  nodes :: "entity_obj list option"
  downstreamEdges :: "edge list option"
  upstreamEdges :: "edge list option"

record filter_result =
  result_id :: string
  linhagem :: lineage

subsection \<open>get\_data and the schema collection (stage 1)\<close>

text \<open>
  \<^verbatim>\<open>params = {'after': after} if after else {}\<close>: a cursor that is \<open>None\<close> or the empty
  string is falsy, and the request then carries no cursor parameter.
\<close>

definition request_params :: "string option \<Rightarrow> string option" where
  "request_params aft =
     (case aft of None \<Rightarrow> None | Some a \<Rightarrow> if a \<noteq> [] then Some a else None)"

text \<open>
  \<^verbatim>\<open>get_data(url, token, after)\<close>: a transport failure of \<^verbatim>\<open>requests.get\<close> propagates, a
  status other than 200 raises, a status of 200 returns the decoded body.
\<close>

definition get_data :: "'b get_server \<Rightarrow> request list \<Rightarrow> string \<Rightarrow> string option \<Rightarrow> error + 'b" where
  "get_data srv hist url aft =
     (case srv hist (url, request_params aft) of
        RequestException \<Rightarrow> Inl TransportError
      | Response status_code body \<Rightarrow>
          if status_code = 200 then Inr body else Inl (StatusError status_code))"

fun lookup_names :: "('m entity_obj_scheme) list \<Rightarrow> error + string list" where
  "lookup_names [] = Inr []"
| "lookup_names (item # items) =
     (case fullyQualifiedName item of
        None \<Rightarrow> Inl (KeyError ''fullyQualifiedName'')
      | Some n \<Rightarrow>
          (case lookup_names items of Inl e \<Rightarrow> Inl e | Inr ns \<Rightarrow> Inr (n # ns)))"

definition extract_fully_qualified_names :: "entity_obj page \<Rightarrow> error + string list" where
  "extract_fully_qualified_names json_data =
     (case data json_data of
        None \<Rightarrow> Inl (KeyError ''data'')
      | Some items \<Rightarrow> lookup_names items)"

definition schemas_url :: string where
  "schemas_url =
     ''https://sandbox.open-metadata.org/api/v1/databaseSchemas?database=Ecommerce_Datawarehouse.dev''"

text \<open>
  The \<^verbatim>\<open>while True\<close> loop of \<^verbatim>\<open>fetch_schemas\<close>. It may run forever, so its result is an
  option: \<open>None\<close> is "never returns". A returned value is the outcome (the exception
  raised, or the collected names) and the log of the requests made.
\<close>

partial_function (option) fetch_schemas_loop ::
  "entity_obj page get_server \<Rightarrow> request list \<Rightarrow> string option \<Rightarrow> string list
     \<Rightarrow> ((error + string list) \<times> request list) option" where
  "fetch_schemas_loop srv hist aft result =
     (case get_data srv hist schemas_url aft of
        Inl e \<Rightarrow> Some (Inl e, hist @ [(schemas_url, request_params aft)])
      | Inr response_data \<Rightarrow>
          (case extract_fully_qualified_names response_data of
             Inl e \<Rightarrow> Some (Inl e, hist @ [(schemas_url, request_params aft)])
           | Inr current_data \<Rightarrow>
               (case paging response_data of
                  None \<Rightarrow>
                    Some (Inl (KeyError ''paging''), hist @ [(schemas_url, request_params aft)])
                | Some paging_info \<Rightarrow>
                    (case after paging_info of
                       Some a \<Rightarrow>
                         fetch_schemas_loop srv (hist @ [(schemas_url, request_params aft)])
                           (Some a) (result @ current_data)
                     | None \<Rightarrow>
                         Some (Inr (result @ current_data),
                               hist @ [(schemas_url, request_params aft)])))))"

definition fetch_schemas ::
  "entity_obj page get_server \<Rightarrow> ((error + string list) \<times> request list) option" where
  "fetch_schemas srv = fetch_schemas_loop srv [] None []"

subsection \<open>The table collection (stage 2)\<close>

text \<open>\<^verbatim>\<open>base_url\<close> of dag\_om.py (the string starts with a space) and of deletarlinhagem.py, and
  \<^verbatim>\<open>url = f'{base_url}{name}'\<close>.\<close>

definition base_url :: string where
  "base_url = '' https://sandbox.open-metadata.org/api/v1/tables?databaseSchema=''"

definition base_url_local :: string where
  "base_url_local = ''https://sandbox.open-metadata.org/api/v1/tables?databaseSchema=''"

definition tables_url :: "string \<Rightarrow> string \<Rightarrow> string" where
  "tables_url base name = base @ name"

text \<open>The projection of one listed table to its four keys; each is read with \<^verbatim>\<open>obj[key]\<close>.\<close>

definition filtered_object :: "table_obj \<Rightarrow> error + table_obj" where
  "filtered_object obj =
     (if id_key obj = None then Inl (KeyError ''id'')
      else if fullyQualifiedName obj = None then Inl (KeyError ''fullyQualifiedName'')
      else if href obj = None then Inl (KeyError ''href'')
      else if tableType obj = None then Inl (KeyError ''tableType'')
      else Inr obj)"

fun filtered_data :: "table_obj list \<Rightarrow> error + table_obj list" where
  "filtered_data [] = Inr []"
| "filtered_data (obj # objs) =
     (case filtered_object obj of
        Inl e \<Rightarrow> Inl e
      | Inr f \<Rightarrow> (case filtered_data objs of Inl e \<Rightarrow> Inl e | Inr fs \<Rightarrow> Inr (f # fs)))"

text \<open>
  The inner \<^verbatim>\<open>while True\<close> loop of \<^verbatim>\<open>create_table_files\<close> for one schema. The decoded body
  is \<open>None\<close> when it is falsy (\<^verbatim>\<open>if not json_data: break\<close>).
\<close>

partial_function (option) table_pages_loop ::
  "table_obj page option get_server \<Rightarrow> request list \<Rightarrow> string \<Rightarrow> string option
     \<Rightarrow> table_obj list \<Rightarrow> ((error + table_obj list) \<times> request list) option" where
  "table_pages_loop srv hist url aft response_data =
     (case get_data srv hist url aft of
        Inl e \<Rightarrow> Some (Inl e, hist @ [(url, request_params aft)])
      | Inr None \<Rightarrow> Some (Inr response_data, hist @ [(url, request_params aft)])
      | Inr (Some json_data) \<Rightarrow>
          (case data json_data of
             None \<Rightarrow> Some (Inl (KeyError ''data''), hist @ [(url, request_params aft)])
           | Some objs \<Rightarrow>
               (case filtered_data objs of
                  Inl e \<Rightarrow> Some (Inl e, hist @ [(url, request_params aft)])
                | Inr fs \<Rightarrow>
                    (case paging json_data of
                       None \<Rightarrow>
                         Some (Inr (response_data @ fs), hist @ [(url, request_params aft)])
                     | Some paging_info \<Rightarrow>
                         (case after paging_info of
                            Some a \<Rightarrow>
                              table_pages_loop srv (hist @ [(url, request_params aft)]) url
                                (Some a) (response_data @ fs)
                          | None \<Rightarrow>
                              Some (Inr (response_data @ fs),
                                    hist @ [(url, request_params aft)]))))))"

text \<open>
  The outer loop over the schema names. There is no handler around \<^verbatim>\<open>get_data\<close>: an
  exception in one schema's loop ends the stage. The result is the exception (if any), the
  files written up to then, and the request log.
\<close>

fun create_table_loop ::
  "table_obj page option get_server \<Rightarrow> string \<Rightarrow> request list
     \<Rightarrow> (string \<times> table_obj list) list
     \<Rightarrow> string list \<Rightarrow> (error option \<times> (string \<times> table_obj list) list \<times> request list) option" where
  "create_table_loop srv base hist files [] = Some (None, files, hist)"
| "create_table_loop srv base hist files (name # names) =
     (case table_pages_loop srv hist (tables_url base name) None [] of
        None \<Rightarrow> None
      | Some (Inl e, hist') \<Rightarrow> Some (Some e, files, hist')
      | Some (Inr response_data, hist') \<Rightarrow>
          create_table_loop srv base hist' (files @ [(name @ ''.json'', response_data)]) names)"

definition create_table_files ::
  "table_obj page option get_server \<Rightarrow> string list
     \<Rightarrow> (error option \<times> (string \<times> table_obj list) list \<times> request list) option" where
  "create_table_files srv databaseSchema_names =
     create_table_loop srv base_url [] [] databaseSchema_names"

definition create_table_files_local ::
  "table_obj page option get_server \<Rightarrow> string list
     \<Rightarrow> (error option \<times> (string \<times> table_obj list) list \<times> request list) option" where
  "create_table_files_local srv databaseSchema_names =
     create_table_loop srv base_url_local [] [] databaseSchema_names"

subsection \<open>The lineage extraction (stage 3)\<close>

text \<open>A \<^verbatim>\<open>for\<close> loop whose body may raise: the first exception ends the loop.\<close>

fun for_each :: "('s \<Rightarrow> 'a \<Rightarrow> error + 's) \<Rightarrow> 's \<Rightarrow> 'a list \<Rightarrow> error + 's" where
  "for_each body s [] = Inr s"
| "for_each body s (x # xs) =
     (case body s x of Inl e \<Rightarrow> Inl e | Inr s' \<Rightarrow> for_each body s' xs)"

text \<open>
  \<^verbatim>\<open>get_lineage_by_id(id)\<close>: everything is inside \<^verbatim>\<open>try\<close>; a status other than 200 and an
  exception both give \<open>None\<close>.
\<close>

definition get_lineage_by_id :: "(string \<Rightarrow> lineage response) \<Rightarrow> string \<Rightarrow> lineage option" where
  "get_lineage_by_id srv i =
     (case srv i of
        RequestException \<Rightarrow> None
      | Response status_code body \<Rightarrow> if status_code = 200 then Some body else None)"

text \<open>
  \<^verbatim>\<open>str.lower()\<close> on the letters A to Z; every other character is kept. (No character
  outside A to Z has \<open>v\<close> or \<open>w\<close> as its lower case, so the test below is the source's.)
\<close>

definition lower_char :: "char \<Rightarrow> char" where
  "lower_char c =
     (case map_of (zip ''ABCDEFGHIJKLMNOPQRSTUVWXYZ'' ''abcdefghijklmnopqrstuvwxyz'') c of
        None \<Rightarrow> c
      | Some l \<Rightarrow> l)"

definition lower :: "string \<Rightarrow> string" where
  "lower s = map lower_char s"

text \<open>\<^verbatim>\<open>sub in s\<close> for strings: \<open>sub\<close> occurs in \<open>s\<close> as a contiguous block.\<close>

fun starts_with :: "string \<Rightarrow> string \<Rightarrow> bool" where
  "starts_with [] s = True"
| "starts_with (c # cs) [] = False"
| "starts_with (c # cs) (d # ds) = (c = d \<and> starts_with cs ds)"

fun contains :: "string \<Rightarrow> string \<Rightarrow> bool" where
  "contains sub [] = (sub = [])"
| "contains sub (c # cs) = (starts_with sub (c # cs) \<or> contains sub cs)"

text \<open>\<^verbatim>\<open>'vw' not in node.get('fullyQualifiedName', '').lower()\<close>, negated.\<close>

definition has_vw :: "entity_obj \<Rightarrow> bool" where
  "has_vw node =
     contains ''vw'' (lower (case fullyQualifiedName node of None \<Rightarrow> [] | Some n \<Rightarrow> n))"

text \<open>
  \<^verbatim>\<open>key not in linhagem or not linhagem[key] or 'lineageDetails' not in linhagem[key][0]\<close>
  for \<^verbatim>\<open>key\<close> one of \<^verbatim>\<open>downstreamEdges\<close>, \<^verbatim>\<open>upstreamEdges\<close>.
\<close>

definition first_edge_lacks_details :: "edge list option \<Rightarrow> bool" where
  "first_edge_lacks_details edges =
     (case edges of
        None \<Rightarrow> True
      | Some [] \<Rightarrow> True
      | Some (e # es) \<Rightarrow> lineageDetails e = None)"

text \<open>The \<^verbatim>\<open>for node in linhagem['nodes']\<close> loop: the three nested tests and the append.\<close>

fun nodes_loop :: "string \<Rightarrow> lineage \<Rightarrow> entity_obj list \<Rightarrow> filter_result list \<Rightarrow> filter_result list" where
  "nodes_loop i lin [] resultados = resultados"
| "nodes_loop i lin (node # rest) resultados =
     nodes_loop i lin rest
       (if \<not> has_vw node then
          if first_edge_lacks_details (downstreamEdges lin) then
            if first_edge_lacks_details (upstreamEdges lin) then
              resultados @ [\<lparr>result_id = i, linhagem = lin\<rparr>]
            else resultados
          else resultados
        else resultados)"

definition processar_item ::
  "(string \<Rightarrow> lineage response) \<Rightarrow> filter_result list \<Rightarrow> table_obj \<Rightarrow> error + filter_result list" where
  "processar_item srv resultados item =
     (if tableType item = Some ''Regular'' \<or> tableType item = Some ''Partitioned''
         \<or> tableType item = Some ''External''
      then
        (case id_key item of
           None \<Rightarrow> Inl (KeyError ''id'')
         | Some i \<Rightarrow>
             (case get_lineage_by_id srv i of
                None \<Rightarrow> Inr resultados
              | Some lin \<Rightarrow>
                  (case nodes lin of
                     None \<Rightarrow> Inr resultados
                   | Some ns \<Rightarrow>
                       if length ns > 0 then Inr (nodes_loop i lin ns resultados)
                       else Inr resultados)))
      else Inr resultados)"

definition endswith :: "string \<Rightarrow> string \<Rightarrow> bool" where
  "endswith s suffix = starts_with (rev suffix) (rev s)"

text \<open>
  \<^verbatim>\<open>extract_and_save_lineage\<close> of dag\_om.py: the listed objects whose names end in
  \<^verbatim>\<open>.json\<close>, each holding the table records of one schema.
\<close>

definition extract_and_save_lineage ::
  "(string \<Rightarrow> lineage response) \<Rightarrow> (string \<times> table_obj list) list \<Rightarrow> error + filter_result list" where
  "extract_and_save_lineage srv files =
     for_each
       (\<lambda>resultados (file_name, dados_json).
          if endswith file_name ''.json''
          then for_each (processar_item srv) resultados dados_json
          else Inr resultados)
       [] files"

text \<open>
  \<^verbatim>\<open>extract_and_save_lineage\<close> of deletarlinhagem.py: one file per schema name, opened by
  name; the loop body is the body of \<open>processar_item\<close>.
\<close>

definition extract_and_save_lineage_local ::
  "(string \<Rightarrow> lineage response) \<Rightarrow> (string \<rightharpoonup> table_obj list) \<Rightarrow> string list
     \<Rightarrow> error + filter_result list" where
  "extract_and_save_lineage_local srv files databaseSchema_names =
     for_each
       (\<lambda>resultados name.
          case files (name @ ''.json'') of
            None \<Rightarrow> Inl (FileNotFoundError (name @ ''.json''))
          | Some items \<Rightarrow> for_each (processar_item srv) resultados items)
       [] databaseSchema_names"

subsection \<open>The deletion (stage 4)\<close>

record deletion_row =
  from_id :: string
  to_id :: string
  status :: string

record deletion_result = deletion_row +
  from_fully_qualified_name :: string
  to_fully_qualified_name :: string

type_synonym del_server = "(string \<times> string) list \<Rightarrow> string \<Rightarrow> string \<Rightarrow> unit response"

text \<open>
  \<^verbatim>\<open>exclude_lineage(from_id, to_id)\<close>: the DELETE request is for
  \<^verbatim>\<open>/lineage/table/{from_id}/table/{to_id}\<close>; the request and the tests on its response
  are inside \<^verbatim>\<open>try\<close>. The second component is the log of the DELETE calls, the pair of
  each call being in the order of the path.
\<close>

definition exclude_lineage ::
  "del_server \<Rightarrow> (string \<times> string) list \<Rightarrow> string \<Rightarrow> string
     \<Rightarrow> deletion_row \<times> (string \<times> string) list" where
  "exclude_lineage srv log f t =
     (case srv log f t of
        RequestException \<Rightarrow>
          (\<lparr>from_id = f, to_id = t, status = ''Erro ao deletar''\<rparr>, log @ [(f, t)])
      | Response status_code body \<Rightarrow>
          if status_code = 200
          then (\<lparr>from_id = f, to_id = t, status = ''Deletada com sucesso''\<rparr>, log @ [(f, t)])
          else (\<lparr>from_id = f, to_id = t, status = ''Erro ao deletar''\<rparr>, log @ [(f, t)]))"

text \<open>
  The state of \<^verbatim>\<open>delete_lineage\<close> in dag\_om.py: the module-level set, the local list of
  results and the log of DELETE calls.
\<close>

record del_state =
  processed_lineage_pairs :: "(string \<times> string) set"
  resultados :: "deletion_result list"
  calls :: "(string \<times> string) list"

text \<open>\<^verbatim>\<open>item['linhagem']['entity']['fullyQualifiedName']\<close>.\<close>

definition entity_name :: "lineage \<Rightarrow> error + string" where
  "entity_name lin =
     (case entity lin of
        None \<Rightarrow> Inl (KeyError ''entity'')
      | Some ent \<Rightarrow>
          (case fullyQualifiedName ent of
             None \<Rightarrow> Inl (KeyError ''fullyQualifiedName'')
           | Some n \<Rightarrow> Inr n))"

text \<open>The body of \<^verbatim>\<open>for edge in downstream_edges\<close> (dag\_om.py).\<close>

definition downstream_step :: "del_server \<Rightarrow> filter_result \<Rightarrow> del_state \<Rightarrow> edge \<Rightarrow> error + del_state" where
  "downstream_step srv item st e =
     (case toEntity e of
        None \<Rightarrow> Inr st
      | Some t \<Rightarrow>
          if result_id item \<noteq> [] \<and> t \<noteq> []
             \<and> (result_id item, t) \<notin> processed_lineage_pairs st
             \<and> (t, result_id item) \<notin> processed_lineage_pairs st
          then
            (case entity_name (linhagem item) of
               Inl err \<Rightarrow> Inl err
             | Inr from_name \<Rightarrow>
                 (case exclude_lineage srv (calls st) (result_id item) t of
                    (row, log) \<Rightarrow>
                      Inr \<lparr>processed_lineage_pairs =
                             insert (result_id item, t) (processed_lineage_pairs st),
                           resultados = resultados st @
                             [\<lparr>from_id = result_id item, to_id = t, status = status row,
                               from_fully_qualified_name = from_name,
                               to_fully_qualified_name =
                                 (case toEntityFullyQualifiedName e of
                                    None \<Rightarrow> [] | Some n \<Rightarrow> n)\<rparr>],
                           calls = log\<rparr>))
          else Inr st)"

text \<open>The body of \<^verbatim>\<open>for edge in upstream_edges\<close> (dag\_om.py).\<close>

definition upstream_step :: "del_server \<Rightarrow> filter_result \<Rightarrow> del_state \<Rightarrow> edge \<Rightarrow> error + del_state" where
  "upstream_step srv item st e =
     (case fromEntity e of
        None \<Rightarrow> Inr st
      | Some t \<Rightarrow>
          if result_id item \<noteq> [] \<and> t \<noteq> []
             \<and> (result_id item, t) \<notin> processed_lineage_pairs st
             \<and> (t, result_id item) \<notin> processed_lineage_pairs st
          then
            (case entity_name (linhagem item) of
               Inl err \<Rightarrow> Inl err
             | Inr from_name \<Rightarrow>
                 (case exclude_lineage srv (calls st) t (result_id item) of
                    (row, log) \<Rightarrow>
                      Inr \<lparr>processed_lineage_pairs =
                             insert (t, result_id item) (processed_lineage_pairs st),
                           resultados = resultados st @
                             [\<lparr>from_id = result_id item, to_id = t, status = status row,
                               from_fully_qualified_name = from_name,
                               to_fully_qualified_name =
                                 (case fromEntityFullyQualifiedName e of
                                    None \<Rightarrow> [] | Some n \<Rightarrow> n)\<rparr>],
                           calls = log\<rparr>))
          else Inr st)"

text \<open>\<^verbatim>\<open>item['linhagem'].get(key, [])\<close>.\<close>

definition edges_or_empty :: "edge list option \<Rightarrow> edge list" where
  "edges_or_empty edges = (case edges of None \<Rightarrow> [] | Some es \<Rightarrow> es)"

definition item_step :: "del_server \<Rightarrow> del_state \<Rightarrow> filter_result \<Rightarrow> error + del_state" where
  "item_step srv st item =
     (case for_each (downstream_step srv item) st
             (edges_or_empty (downstreamEdges (linhagem item))) of
        Inl err \<Rightarrow> Inl err
      | Inr st' \<Rightarrow>
          for_each (upstream_step srv item) st'
            (edges_or_empty (upstreamEdges (linhagem item))))"

text \<open>
  \<^verbatim>\<open>delete_lineage\<close> of dag\_om.py, run with the module-level set holding \<open>processed\<close>
  (empty when the module is loaded).
\<close>

definition delete_lineage ::
  "del_server \<Rightarrow> (string \<times> string) set \<Rightarrow> filter_result list \<Rightarrow> error + del_state" where
  "delete_lineage srv processed items =
     for_each (item_step srv)
       \<lparr>processed_lineage_pairs = processed, resultados = [], calls = []\<rparr> items"

text \<open>
  \<^verbatim>\<open>delete_lineage\<close> of deletarlinhagem.py: no set of processed pairs, no names in the
  rows, nothing that raises. The state is the list of results and the log of DELETE calls.
\<close>

definition downstream_step_local ::
  "del_server \<Rightarrow> filter_result \<Rightarrow> deletion_row list \<times> (string \<times> string) list \<Rightarrow> edge
     \<Rightarrow> deletion_row list \<times> (string \<times> string) list" where
  "downstream_step_local srv item st e =
     (case toEntity e of
        None \<Rightarrow> st
      | Some t \<Rightarrow>
          if result_id item \<noteq> [] \<and> t \<noteq> []
          then
            (case exclude_lineage srv (snd st) (result_id item) t of
               (row, log) \<Rightarrow>
                 (fst st @ [\<lparr>from_id = result_id item, to_id = t, status = status row\<rparr>], log))
          else st)"

definition upstream_step_local ::
  "del_server \<Rightarrow> filter_result \<Rightarrow> deletion_row list \<times> (string \<times> string) list \<Rightarrow> edge
     \<Rightarrow> deletion_row list \<times> (string \<times> string) list" where
  "upstream_step_local srv item st e =
     (case fromEntity e of
        None \<Rightarrow> st
      | Some t \<Rightarrow>
          if result_id item \<noteq> [] \<and> t \<noteq> []
          then
            (case exclude_lineage srv (snd st) t (result_id item) of
               (row, log) \<Rightarrow>
                 (fst st @ [\<lparr>from_id = result_id item, to_id = t, status = status row\<rparr>], log))
          else st)"

definition item_step_local ::
  "del_server \<Rightarrow> deletion_row list \<times> (string \<times> string) list \<Rightarrow> filter_result
     \<Rightarrow> deletion_row list \<times> (string \<times> string) list" where
  "item_step_local srv st item =
     foldl (upstream_step_local srv item)
       (foldl (downstream_step_local srv item) st
          (edges_or_empty (downstreamEdges (linhagem item))))
       (edges_or_empty (upstreamEdges (linhagem item)))"

definition delete_lineage_local ::
  "del_server \<Rightarrow> filter_result list \<Rightarrow> deletion_row list \<times> (string \<times> string) list" where
  "delete_lineage_local srv items = foldl (item_step_local srv) ([], []) items"

section \<open>Notions used in the statements\<close>

subsection \<open>Servers and pages of the schema listing\<close>

text \<open>
  A server that replays a fixed sequence of pages: the \<open>k\<close>-th request, whatever it asks
  for, is answered with status 200 and the \<open>k\<close>-th page; a request past the end fails.
\<close>

definition replay :: "'b list \<Rightarrow> 'b get_server" where
  "replay pages hist req =
     (if length hist < length pages then Response 200 (pages ! length hist)
      else RequestException)"

text \<open>The names of a page, when every item has one.\<close>

definition page_names :: "entity_obj page \<Rightarrow> string list" where
  "page_names p = (case extract_fully_qualified_names p of Inl e \<Rightarrow> [] | Inr ns \<Rightarrow> ns)"

definition readable :: "entity_obj page \<Rightarrow> bool" where
  "readable p = (case extract_fully_qualified_names p of Inl e \<Rightarrow> False | Inr ns \<Rightarrow> True)"

text \<open>The paging metadata of a page holds the key \<^verbatim>\<open>after\<close>; it is there and lacks the key.\<close>

definition has_cursor :: "'a page \<Rightarrow> bool" where
  "has_cursor p = (case paging p of None \<Rightarrow> False | Some i \<Rightarrow> after i \<noteq> None)"

definition final_page :: "'a page \<Rightarrow> bool" where
  "final_page p = (case paging p of None \<Rightarrow> False | Some i \<Rightarrow> after i = None)"

text \<open>
  The value that the loop of \<open>fetch_schemas\<close> assigns to its cursor on a response, if it
  gets that far: the response has status 200, its items all have names, and its paging
  metadata holds \<^verbatim>\<open>after\<close>. On every other response the loop ends.
\<close>

definition next_cursor :: "entity_obj page response \<Rightarrow> string option" where
  "next_cursor r =
     (case r of
        RequestException \<Rightarrow> None
      | Response status_code body \<Rightarrow>
          if status_code = 200 then
            (case extract_fully_qualified_names body of
               Inl e \<Rightarrow> None
             | Inr ns \<Rightarrow> (case paging body of None \<Rightarrow> None | Some i \<Rightarrow> after i))
          else None)"

text \<open>
  For a server \<open>f\<close> that answers a request by its content alone: \<open>chain f p t\<close> says that
  \<open>t\<close> is the complete sequence of requests of a run of the loop that starts with the
  cursor parameter \<open>p\<close> and ends; \<open>requests_made n f p\<close> are the first \<open>n\<close> requests of
  the run, ended or not.
\<close>

fun chain :: "(request \<Rightarrow> entity_obj page response) \<Rightarrow> string option \<Rightarrow> request list \<Rightarrow> bool" where
  "chain f p [] = False"
| "chain f p (q # t) =
     (q = (schemas_url, p) \<and>
      (case next_cursor (f q) of
         None \<Rightarrow> t = []
       | Some a \<Rightarrow> chain f (request_params (Some a)) t))"

fun requests_made :: "nat \<Rightarrow> (request \<Rightarrow> entity_obj page response) \<Rightarrow> string option \<Rightarrow> request list" where
  "requests_made 0 f p = []"
| "requests_made (Suc n) f p =
     (schemas_url, p) #
       (case next_cursor (f (schemas_url, p)) of
          None \<Rightarrow> []
        | Some a \<Rightarrow> requests_made n f (request_params (Some a)))"

subsection \<open>Rows and courses of the deletion\<close>

text \<open>The ordered and the unordered pair of identifiers of a row.\<close>

definition row_key :: "'m deletion_row_scheme \<Rightarrow> string \<times> string" where
  "row_key r = (from_id r, to_id r)"

definition edge_key :: "'m deletion_row_scheme \<Rightarrow> string set" where
  "edge_key r = {from_id r, to_id r}"

text \<open>
  Two runs of the deletion took the same course: both raised the same exception, or both
  ended with the same set of processed pairs, the same DELETE calls in the same order and
  rows for the same pairs in the same order (the status of a row may differ).
\<close>

definition same_course :: "error + del_state \<Rightarrow> error + del_state \<Rightarrow> bool" where
  "same_course a b =
     (case a of
        Inl e \<Rightarrow> (case b of Inl e' \<Rightarrow> e = e' | Inr st' \<Rightarrow> False)
      | Inr st \<Rightarrow>
          (case b of
             Inl e' \<Rightarrow> False
           | Inr st' \<Rightarrow>
               processed_lineage_pairs st = processed_lineage_pairs st' \<and>
               calls st = calls st' \<and>
               map row_key (resultados st) = map row_key (resultados st')))"

definition same_course_local ::
  "deletion_row list \<times> (string \<times> string) list
     \<Rightarrow> deletion_row list \<times> (string \<times> string) list \<Rightarrow> bool" where
  "same_course_local a b = (snd a = snd b \<and> map row_key (fst a) = map row_key (fst b))"

text \<open>The DELETE calls that the edges of a filter result stand for: from the table to the
  \<^verbatim>\<open>toEntity\<close> of a downstream edge, and from the \<^verbatim>\<open>fromEntity\<close> of an upstream edge to the
  table.\<close>

definition item_calls :: "filter_result \<Rightarrow> (string \<times> string) set" where
  "item_calls item =
     {(result_id item, t) | e t.
        e \<in> set (edges_or_empty (downstreamEdges (linhagem item))) \<and> toEntity e = Some t}
     \<union> {(x, result_id item) | e x.
        e \<in> set (edges_or_empty (upstreamEdges (linhagem item))) \<and> fromEntity e = Some x}"

text \<open>The invariant of the deletion of dag\_om.py: every row's pair is in the set, in one
  order or the other, and no two rows have the same unordered pair.\<close>

definition pair_done :: "(string \<times> string) set \<Rightarrow> 'm deletion_row_scheme \<Rightarrow> bool" where
  "pair_done P r = ((from_id r, to_id r) \<in> P \<or> (to_id r, from_id r) \<in> P)"

definition dedup_inv :: "del_state \<Rightarrow> bool" where
  "dedup_inv st =
     (distinct (map edge_key (resultados st)) \<and>
      list_all (pair_done (processed_lineage_pairs st)) (resultados st))"

section \<open>Example data\<close>

definition first_page :: "entity_obj page" where
  "first_page = \<lparr>data = Some [\<lparr>fullyQualifiedName = Some ''db.s1''\<rparr>,
                               \<lparr>fullyQualifiedName = Some ''db.s2''\<rparr>],
                  paging = Some \<lparr>after = Some ''c1''\<rparr>\<rparr>"

definition closing_page :: "entity_obj page" where
  "closing_page = \<lparr>data = Some [\<lparr>fullyQualifiedName = Some ''db.s3''\<rparr>],
                    paging = Some \<lparr>after = None\<rparr>\<rparr>"

definition blank_cursor_page :: "entity_obj page" where
  "blank_cursor_page = \<lparr>data = Some [\<lparr>fullyQualifiedName = Some ''db.s3''\<rparr>],
                         paging = Some \<lparr>after = Some []\<rparr>\<rparr>"

text \<open>Two servers that answer by the cursor parameter alone. The second answers the
  cursor \<^verbatim>\<open>c1\<close> with a page whose \<^verbatim>\<open>after\<close> is the empty string.\<close>

definition cursor_server :: "request \<Rightarrow> entity_obj page response" where
  "cursor_server q = (if snd q = None then Response 200 first_page else Response 200 closing_page)"

definition cycling_server :: "request \<Rightarrow> entity_obj page response" where
  "cycling_server q =
     (if snd q = None then Response 200 first_page else Response 200 blank_cursor_page)"

definition table_t1 :: table_obj where
  "table_t1 = \<lparr>fullyQualifiedName = Some ''db.t1'', id_key = Some ''t1'',
     href = Some ''http://catalog/tables/t1'', tableType = Some ''Regular''\<rparr>"

text \<open>Two table servers: the listing of schema \<^verbatim>\<open>s1\<close> answers with status 500, or cannot
  be reached; every other listing is one page without paging metadata.\<close>

definition one_schema_down :: "string \<Rightarrow> table_obj page option get_server" where
  "one_schema_down base hist q =
     (if fst q = tables_url base ''s1'' then Response 500 None
      else Response 200 (Some \<lparr>data = Some [table_t1], paging = None\<rparr>))"

definition one_schema_unreachable :: "string \<Rightarrow> table_obj page option get_server" where
  "one_schema_unreachable base hist q =
     (if fst q = tables_url base ''s1'' then RequestException
      else Response 200 (Some \<lparr>data = Some [table_t1], paging = None\<rparr>))"

definition node_t2 :: entity_obj where
  "node_t2 = \<lparr>fullyQualifiedName = Some ''db.t2''\<rparr>"

definition node_t3 :: entity_obj where
  "node_t3 = \<lparr>fullyQualifiedName = Some ''db.t3''\<rparr>"

definition node_view :: entity_obj where
  "node_view = \<lparr>fullyQualifiedName = Some ''db.VW_sales''\<rparr>"

definition plain_edge :: edge where
  "plain_edge = \<lparr>toEntity = Some ''t2'', toEntityFullyQualifiedName = Some ''db.t2'',
     fromEntity = Some ''t1'', fromEntityFullyQualifiedName = Some ''db.t1'',
     lineageDetails = None\<rparr>"

definition detailed_edge :: edge where
  "detailed_edge = \<lparr>toEntity = Some ''t3'', toEntityFullyQualifiedName = Some ''db.t3'',
     fromEntity = Some ''t1'', fromEntityFullyQualifiedName = Some ''db.t1'',
     lineageDetails = Some ''insert into t3 select * from t1''\<rparr>"

definition mixed_lineage :: lineage where
  "mixed_lineage = \<lparr>entity = Some \<lparr>fullyQualifiedName = Some ''db.t1''\<rparr>,
     nodes = Some [node_t2, node_view], downstreamEdges = Some [plain_edge],
     upstreamEdges = None\<rparr>"

definition plain_lineage :: lineage where
  "plain_lineage = \<lparr>entity = Some \<lparr>fullyQualifiedName = Some ''db.t1''\<rparr>,
     nodes = Some [node_t2, node_t3], downstreamEdges = Some [plain_edge],
     upstreamEdges = None\<rparr>"

definition longer_lineage :: lineage where
  "longer_lineage = \<lparr>entity = Some \<lparr>fullyQualifiedName = Some ''db.t1''\<rparr>,
     nodes = Some [node_t2, node_t3], downstreamEdges = Some [plain_edge, detailed_edge],
     upstreamEdges = None\<rparr>"

definition serve_lineage :: "lineage \<Rightarrow> string \<Rightarrow> lineage response" where
  "serve_lineage lin i = Response 200 lin"

text \<open>One edge from table \<^verbatim>\<open>A\<close> to table \<^verbatim>\<open>B\<close>, listed among the downstream edges of
  \<^verbatim>\<open>A\<close> and among the upstream edges of \<^verbatim>\<open>B\<close>.\<close>

definition edge_a_b :: edge where
  "edge_a_b = \<lparr>toEntity = Some ''B'', toEntityFullyQualifiedName = Some ''db.b'',
     fromEntity = Some ''A'', fromEntityFullyQualifiedName = Some ''db.a'',
     lineageDetails = None\<rparr>"

definition item_a :: filter_result where
  "item_a = \<lparr>result_id = ''A'',
     linhagem = \<lparr>entity = Some \<lparr>fullyQualifiedName = Some ''db.a''\<rparr>,
                 nodes = Some [\<lparr>fullyQualifiedName = Some ''db.b''\<rparr>],
                 downstreamEdges = Some [edge_a_b], upstreamEdges = None\<rparr>\<rparr>"

definition item_b :: filter_result where
  "item_b = \<lparr>result_id = ''B'',
     linhagem = \<lparr>entity = Some \<lparr>fullyQualifiedName = Some ''db.b''\<rparr>,
                 nodes = Some [\<lparr>fullyQualifiedName = Some ''db.a''\<rparr>],
                 downstreamEdges = None, upstreamEdges = Some [edge_a_b]\<rparr>\<rparr>"

definition accepting_server :: del_server where
  "accepting_server log f t = Response 200 ()"

definition refusing_server :: del_server where
  "refusing_server log f t = (if log = [] then RequestException else Response 500 ())"

definition fresh_state :: del_state where
  "fresh_state = \<lparr>processed_lineage_pairs = {}, resultados = [], calls = []\<rparr>"

section \<open>Stage 1: the schema collection\<close>

subsection \<open>One turn of the loop\<close>

lemma loop_continue:
  assumes "next_cursor (srv hist (schemas_url, request_params aft)) = Some a"
  shows "\<exists>cur. fetch_schemas_loop srv hist aft result =
           fetch_schemas_loop srv (hist @ [(schemas_url, request_params aft)]) (Some a)
             (result @ cur)"
  using assms
  by (subst fetch_schemas_loop.simps)
     (auto simp: next_cursor_def get_data_def
           split: response.splits sum.splits option.splits if_splits)

lemma loop_stop:
  assumes "next_cursor (srv hist (schemas_url, request_params aft)) = None"
  shows "\<exists>out. fetch_schemas_loop srv hist aft result =
           Some (out, hist @ [(schemas_url, request_params aft)])"
  using assms
  by (subst fetch_schemas_loop.simps)
     (auto simp: next_cursor_def get_data_def
           split: response.splits sum.splits option.splits if_splits)

subsection \<open>A replayed sequence of pages\<close>

lemma loop_replay:
  assumes "list_all has_cursor ps" and "list_all readable ps" and "readable lastp"
    and "final_page lastp" and "length hist = length pre"
  shows "\<exists>log. fetch_schemas_loop (replay (pre @ ps @ [lastp])) hist aft result =
           Some (Inr (result @ concat (map page_names (ps @ [lastp]))), log)
         \<and> length log = length hist + length ps + 1"
  using assms
proof (induction ps arbitrary: pre hist aft result)
  case Nil
  then have "replay (pre @ [] @ [lastp]) hist (schemas_url, request_params aft) =
      Response 200 lastp"
    by (simp add: replay_def)
  with Nil show ?case
    by (subst fetch_schemas_loop.simps)
       (auto simp: get_data_def readable_def final_page_def page_names_def
             split: sum.splits option.splits)
next
  case (Cons p ps)
  let ?q = "(schemas_url, request_params aft)"
  from Cons.prems have r: "replay (pre @ (p # ps) @ [lastp]) hist ?q = Response 200 p"
    by (simp add: replay_def nth_append)
  from Cons.prems obtain ns i a where p: "extract_fully_qualified_names p = Inr ns"
      "paging p = Some i" "after i = Some a"
    by (auto simp: readable_def has_cursor_def split: sum.splits option.splits)
  have turn: "fetch_schemas_loop (replay (pre @ (p # ps) @ [lastp])) hist aft result =
      fetch_schemas_loop (replay ((pre @ [p]) @ ps @ [lastp])) (hist @ [?q]) (Some a)
        (result @ ns)"
    using r p by (subst fetch_schemas_loop.simps) (simp add: get_data_def)
  from Cons.prems have "\<exists>log.
      fetch_schemas_loop (replay ((pre @ [p]) @ ps @ [lastp])) (hist @ [?q]) (Some a)
        (result @ ns) =
        Some (Inr ((result @ ns) @ concat (map page_names (ps @ [lastp]))), log)
      \<and> length log = length (hist @ [?q]) + length ps + 1"
    by (intro Cons.IH) simp_all
  moreover from p have "page_names p = ns" by (simp add: page_names_def)
  ultimately show ?case using turn by auto
qed

text \<open>
  Claim C7. Let the catalog answer the requests of \<open>fetch_schemas\<close> with a finite sequence
  of pages, one page per request, each with status 200 and with a name on every item;
  let every page before the last hold an \<^verbatim>\<open>after\<close> cursor and the last page hold paging
  metadata without one. Then \<open>fetch_schemas\<close> returns, it has made exactly as many
  requests as there are pages, and its result is the concatenation of the names of all
  pages, in page order and in item order within each page.
\<close>

theorem fetch_schemas_replay:
  assumes "list_all has_cursor ps" and "list_all readable ps" and "readable lastp"
    and "final_page lastp"
  shows "\<exists>log. fetch_schemas (replay (ps @ [lastp])) =
           Some (Inr (concat (map page_names (ps @ [lastp]))), log)
         \<and> length log = length ps + 1"
  using loop_replay[OF assms, of "[]" "[]" None "[]"] by (simp add: fetch_schemas_def)

theorem fetch_schemas_replay_witness:
  "list_all has_cursor [first_page] \<and> list_all readable [first_page] \<and> readable closing_page
   \<and> final_page closing_page
   \<and> (\<exists>log. fetch_schemas (replay ([first_page] @ [closing_page])) =
              Some (Inr [''db.s1'', ''db.s2'', ''db.s3''], log)
            \<and> length log = 2)"
proof -
  have h1: "list_all has_cursor [first_page]" by (simp add: has_cursor_def first_page_def)
  have h2: "list_all readable [first_page]"
    by (simp add: readable_def extract_fully_qualified_names_def first_page_def)
  have h3: "readable closing_page"
    by (simp add: readable_def extract_fully_qualified_names_def closing_page_def)
  have h4: "final_page closing_page" by (simp add: final_page_def closing_page_def)
  have n: "concat (map page_names ([first_page] @ [closing_page])) =
      [''db.s1'', ''db.s2'', ''db.s3'']"
    by (simp add: page_names_def extract_fully_qualified_names_def first_page_def
          closing_page_def)
  from fetch_schemas_replay[OF h1 h2 h3 h4] n h1 h2 h3 h4 show ?thesis
    by (simp add: numeral_2_eq_2)
qed

subsection \<open>A server that answers by the request alone\<close>

lemma loop_trace:
  assumes "fetch_schemas_loop srv hist aft result = Some r"
  shows "srv = (\<lambda>h. f) \<longrightarrow> (\<exists>t. snd r = hist @ t \<and> chain f (request_params aft) t)"
proof (rule fetch_schemas_loop.raw_induct
    [where P = "\<lambda>srv hist aft result r.
       srv = (\<lambda>h. f) \<longrightarrow> (\<exists>t. snd r = hist @ t \<and> chain f (request_params aft) t)",
     OF _ assms])
  fix g :: "entity_obj page get_server \<Rightarrow> request list \<Rightarrow> string option \<Rightarrow> string list
               \<Rightarrow> ((error + string list) \<times> request list) option"
    and srv :: "entity_obj page get_server" and hist aft result r
  assume IH: "\<And>srv hist aft result r. g srv hist aft result = Some r \<Longrightarrow>
      srv = (\<lambda>h. f) \<longrightarrow> (\<exists>t. snd r = hist @ t \<and> chain f (request_params aft) t)"
  assume eq: "(case get_data srv hist schemas_url aft of
        Inl e \<Rightarrow> Some (Inl e, hist @ [(schemas_url, request_params aft)])
      | Inr response_data \<Rightarrow>
          (case extract_fully_qualified_names response_data of
             Inl e \<Rightarrow> Some (Inl e, hist @ [(schemas_url, request_params aft)])
           | Inr current_data \<Rightarrow>
               (case paging response_data of
                  None \<Rightarrow>
                    Some (Inl (KeyError ''paging''), hist @ [(schemas_url, request_params aft)])
                | Some paging_info \<Rightarrow>
                    (case after paging_info of
                       None \<Rightarrow>
                         Some (Inr (result @ current_data),
                               hist @ [(schemas_url, request_params aft)])
                     | Some a \<Rightarrow>
                         g srv (hist @ [(schemas_url, request_params aft)])
                           (Some a) (result @ current_data))))) = Some r"
  show "srv = (\<lambda>h. f) \<longrightarrow> (\<exists>t. snd r = hist @ t \<and> chain f (request_params aft) t)"
  proof
    assume s: "srv = (\<lambda>h. f)"
    let ?q = "(schemas_url, request_params aft)"
    show "\<exists>t. snd r = hist @ t \<and> chain f (request_params aft) t"
    proof (cases "next_cursor (f ?q)")
      case None
      with eq s have "snd r = hist @ [?q]"
        by (auto simp: next_cursor_def get_data_def
                 split: response.splits sum.splits option.splits if_splits)
      with None show ?thesis by auto
    next
      case (Some a)
      with eq s obtain cur where "g srv (hist @ [?q]) (Some a) (result @ cur) = Some r"
        by (auto simp: next_cursor_def get_data_def
                 split: response.splits sum.splits option.splits if_splits)
      from IH[OF this] s obtain t where
        "snd r = (hist @ [?q]) @ t" "chain f (request_params (Some a)) t"
        by blast
      with Some show ?thesis by (intro exI[of _ "?q # t"]) auto
    qed
  qed
qed

lemma fetch_schemas_chain:
  assumes "fetch_schemas (\<lambda>h. f) = Some (out, log)"
  shows "chain f None log"
proof -
  from assms have "fetch_schemas_loop (\<lambda>h. f) [] None [] = Some (out, log)"
    by (simp add: fetch_schemas_def)
  from loop_trace[OF this, of f] show ?thesis by (simp add: request_params_def)
qed

lemma chain_deterministic: "chain f p t \<Longrightarrow> chain f p t' \<Longrightarrow> t = t'"
proof (induction t arbitrary: p t')
  case Nil
  then show ?case by simp
next
  case (Cons q t)
  then show ?case
    by (cases t') (auto split: option.splits)
qed

lemma chain_suffix:
  "chain f p (t1 @ q # t2) \<Longrightarrow> next_cursor (f q) = Some a
   \<Longrightarrow> chain f (request_params (Some a)) t2"
proof (induction t1 arbitrary: p)
  case Nil
  then show ?case by simp
next
  case (Cons x t1)
  then show ?case by (auto split: option.splits)
qed

text \<open>A run that ends never saw an empty cursor: after one, the run would start over and,
  being determined by its first request, would have to be its own proper suffix.\<close>

lemma chain_no_empty_cursor:
  assumes "chain f None t" and "q \<in> set t"
  shows "next_cursor (f q) \<noteq> Some []"
proof
  assume e: "next_cursor (f q) = Some []"
  from \<open>q \<in> set t\<close> obtain t1 t2 where t: "t = t1 @ q # t2"
    by (auto simp: in_set_conv_decomp)
  with assms(1) e have "chain f (request_params (Some [])) t2"
    using chain_suffix by blast
  then have "chain f None t2" by (simp add: request_params_def)
  then have "t2 = t" using assms(1) by (rule chain_deterministic)
  with t show False by simp
qed

lemma requests_made_in_chain: "chain f p t \<Longrightarrow> set (requests_made n f p) \<subseteq> set t"
proof (induction n arbitrary: p t)
  case 0
  then show ?case by simp
next
  case (Suc n)
  from Suc.prems obtain t' where t: "t = (schemas_url, p) # t'" by (cases t) auto
  show ?case
  proof (cases "next_cursor (f (schemas_url, p))")
    case None
    with t show ?thesis by simp
  next
    case (Some a)
    with Suc.prems t have "chain f (request_params (Some a)) t'" by simp
    then have "set (requests_made n f (request_params (Some a))) \<subseteq> set t'" by (rule Suc.IH)
    with t Some show ?thesis by auto
  qed
qed

text \<open>
  Claim C9, as stated, fails: it holds only for a catalog that answers the repeated
  first-page request as it answered the first. Against a catalog that answers the first
  request with a page whose \<^verbatim>\<open>after\<close> is the empty string and the second request with a
  page without \<^verbatim>\<open>after\<close>, the loop reads the empty cursor, makes the first-page request
  a second time and returns.
\<close>

theorem empty_cursor_run_returns:
  "paging blank_cursor_page = Some \<lparr>after = Some []\<rparr>
   \<and> fetch_schemas (replay [blank_cursor_page, closing_page]) =
       Some (Inr [''db.s3'', ''db.s3''], [(schemas_url, None), (schemas_url, None)])"
  by (simp add: fetch_schemas_def fetch_schemas_loop.simps get_data_def request_params_def
        replay_def extract_fully_qualified_names_def blank_cursor_page_def closing_page_def)

text \<open>
  Claim C9, with the condition it needs. Let the catalog answer a request of
  \<open>fetch_schemas\<close> by the request alone
  (the same request always gets the same response). If \<open>fetch_schemas\<close> returns, by a
  result or by an exception, then no response it received made the loop go on with an
  empty \<^verbatim>\<open>after\<close> value. If the response to some request that the loop makes holds the
  key \<^verbatim>\<open>after\<close> with the empty string (status 200, a name on every item), then
  \<open>fetch_schemas\<close> never returns. And \<open>get_data\<close> with an empty cursor makes the request
  that it makes with no cursor, the first-page request.
\<close>

theorem fetch_schemas_empty_cursor:
  "(fetch_schemas (\<lambda>h. f) = Some (out, log)
      \<longrightarrow> (\<forall>q \<in> set log. next_cursor (f q) \<noteq> Some []))
   \<and> (q \<in> set (requests_made n f None) \<and> next_cursor (f q) = Some []
        \<longrightarrow> fetch_schemas (\<lambda>h. f) = None)
   \<and> get_data srv hist url (Some []) = get_data srv hist url None"
proof (intro conjI impI)
  assume "fetch_schemas (\<lambda>h. f) = Some (out, log)"
  then have "chain f None log" by (rule fetch_schemas_chain)
  then show "\<forall>q \<in> set log. next_cursor (f q) \<noteq> Some []"
    using chain_no_empty_cursor by blast
next
  assume a: "q \<in> set (requests_made n f None) \<and> next_cursor (f q) = Some []"
  show "fetch_schemas (\<lambda>h. f) = None"
  proof (cases "fetch_schemas (\<lambda>h. f)")
    case None
    then show ?thesis .
  next
    case (Some r)
    then have c: "chain f None (snd r)"
      using fetch_schemas_chain[of f "fst r" "snd r"] by simp
    then have "q \<in> set (snd r)" using a requests_made_in_chain by blast
    with c a show ?thesis using chain_no_empty_cursor by blast
  qed
next
  show "get_data srv hist url (Some []) = get_data srv hist url None"
    by (simp add: get_data_def request_params_def)
qed

lemma cursor_server_run:
  "fetch_schemas (\<lambda>h. cursor_server) =
     Some (Inr [''db.s1'', ''db.s2'', ''db.s3''],
           [(schemas_url, None), (schemas_url, Some ''c1'')])"
  by (simp add: fetch_schemas_def fetch_schemas_loop.simps get_data_def request_params_def
        cursor_server_def extract_fully_qualified_names_def first_page_def closing_page_def)

theorem fetch_schemas_empty_cursor_witness:
  "fetch_schemas (\<lambda>h. cursor_server) =
     Some (Inr [''db.s1'', ''db.s2'', ''db.s3''],
           [(schemas_url, None), (schemas_url, Some ''c1'')])
   \<and> next_cursor (cursor_server (schemas_url, None)) \<noteq> Some []
   \<and> next_cursor (cursor_server (schemas_url, Some ''c1'')) \<noteq> Some []
   \<and> (schemas_url, Some ''c1'') \<in> set (requests_made 2 cycling_server None)
   \<and> next_cursor (cycling_server (schemas_url, Some ''c1'')) = Some []
   \<and> fetch_schemas (\<lambda>h. cycling_server) = None"
proof -
  have r: "fetch_schemas (\<lambda>h. cursor_server) =
     Some (Inr [''db.s1'', ''db.s2'', ''db.s3''],
           [(schemas_url, None), (schemas_url, Some ''c1'')])"
    by (rule cursor_server_run)
  have c: "next_cursor (cycling_server (schemas_url, Some ''c1'')) = Some []"
    by (simp add: next_cursor_def cycling_server_def blank_cursor_page_def
          extract_fully_qualified_names_def)
  have m: "(schemas_url, Some ''c1'') \<in> set (requests_made 2 cycling_server None)"
    by (simp add: numeral_2_eq_2 next_cursor_def cycling_server_def first_page_def
          extract_fully_qualified_names_def request_params_def)
  from fetch_schemas_empty_cursor[where f = cursor_server, THEN conjunct1, rule_format, OF r]
  have a: "next_cursor (cursor_server (schemas_url, None)) \<noteq> Some []
     \<and> next_cursor (cursor_server (schemas_url, Some ''c1'')) \<noteq> Some []"
    by simp
  from fetch_schemas_empty_cursor[where f = cycling_server, THEN conjunct2, THEN conjunct1,
      rule_format, OF conjI[OF m c]]
  have "fetch_schemas (\<lambda>h. cycling_server) = None" .
  with r a c m show ?thesis by blast
qed

section \<open>Stage 2: the table collection\<close>

text \<open>An exception of \<open>get_data\<close> on the first page of a schema ends the stage, whatever
  schemas remain: the files written so far stay, nothing more is requested.\<close>

lemma create_table_loop_status_error:
  assumes "srv hist (tables_url base name, None) = Response code body" and "code \<noteq> 200"
  shows "create_table_loop srv base hist files (name # names) =
           Some (Some (StatusError code), files, hist @ [(tables_url base name, None)])"
  using assms by (simp add: table_pages_loop.simps get_data_def request_params_def)

lemma create_table_loop_transport_error:
  assumes "srv hist (tables_url base name, None) = RequestException"
  shows "create_table_loop srv base hist files (name # names) =
           Some (Some TransportError, files, hist @ [(tables_url base name, None)])"
  using assms by (simp add: table_pages_loop.simps get_data_def request_params_def)

text \<open>
  Claim C3. With the schemas \<^verbatim>\<open>s1\<close> and \<^verbatim>\<open>s2\<close> and a catalog whose table listing for
  \<^verbatim>\<open>s1\<close> answers with status 500, or cannot be reached, \<open>create_table_files\<close> ends with the
  exception of \<open>get_data\<close> after one request: no file is written and the listing of
  \<^verbatim>\<open>s2\<close> is never requested, though it would have been served (third conjunct). The
  same holds in deletarlinhagem.py (last two conjuncts).
\<close>

theorem create_table_files_aborts:
  "create_table_files (one_schema_down base_url) [''s1'', ''s2''] =
     Some (Some (StatusError 500), [], [(tables_url base_url ''s1'', None)])
   \<and> create_table_files (one_schema_unreachable base_url) [''s1'', ''s2''] =
     Some (Some TransportError, [], [(tables_url base_url ''s1'', None)])
   \<and> create_table_files (one_schema_down base_url) [''s2''] =
     Some (None, [(''s2.json'', [table_t1])], [(tables_url base_url ''s2'', None)])
   \<and> create_table_files_local (one_schema_down base_url_local) [''s1'', ''s2''] =
     Some (Some (StatusError 500), [], [(tables_url base_url_local ''s1'', None)])
   \<and> create_table_files_local (one_schema_unreachable base_url_local) [''s1'', ''s2''] =
     Some (Some TransportError, [], [(tables_url base_url_local ''s1'', None)])"
  by (simp add: create_table_files_def create_table_files_local_def table_pages_loop.simps
        get_data_def request_params_def one_schema_down_def one_schema_unreachable_def
        tables_url_def table_t1_def filtered_object_def)

section \<open>Stage 3: the lineage extraction\<close>

subsection \<open>The test on the names\<close>

text \<open>\<open>contains\<close> is the substring test, and \<open>has_vw\<close> holds exactly when the name has a
  \<^verbatim>\<open>v\<close> or \<^verbatim>\<open>V\<close> directly followed by a \<^verbatim>\<open>w\<close> or \<^verbatim>\<open>W\<close>.\<close>

lemma starts_with_iff: "starts_with sub s \<longleftrightarrow> (\<exists>suf. s = sub @ suf)"
  by (induction sub s rule: starts_with.induct) auto

lemma contains_iff: "contains sub s \<longleftrightarrow> (\<exists>pre suf. s = pre @ sub @ suf)"
proof (induction s)
  case Nil
  then show ?case by auto
next
  case (Cons c cs)
  show ?case
  proof
    assume "contains sub (c # cs)"
    then consider "starts_with sub (c # cs)" | "contains sub cs" by auto
    then show "\<exists>pre suf. c # cs = pre @ sub @ suf"
    proof cases
      case 1
      then obtain suf where "c # cs = [] @ sub @ suf" by (auto simp: starts_with_iff)
      then show ?thesis by blast
    next
      case 2
      with Cons.IH obtain pre suf where "cs = pre @ sub @ suf" by blast
      then have "c # cs = (c # pre) @ sub @ suf" by simp
      then show ?thesis by blast
    qed
  next
    assume "\<exists>pre suf. c # cs = pre @ sub @ suf"
    then obtain pre suf where e: "c # cs = pre @ sub @ suf" by blast
    show "contains sub (c # cs)"
    proof (cases pre)
      case Nil
      with e have "starts_with sub (c # cs)" by (auto simp: starts_with_iff)
      then show ?thesis by simp
    next
      case (Cons p pre')
      with e have "cs = pre' @ sub @ suf" by simp
      with Cons.IH have "contains sub cs" by blast
      then show ?thesis by simp
    qed
  qed
qed

lemma lower_char_v: "lower_char c = CHR ''v'' \<longleftrightarrow> c = CHR ''v'' \<or> c = CHR ''V''"
  by (auto simp: lower_char_def split: if_splits)

lemma lower_char_w: "lower_char c = CHR ''w'' \<longleftrightarrow> c = CHR ''w'' \<or> c = CHR ''W''"
  by (auto simp: lower_char_def split: if_splits)

lemma has_vw_iff:
  "has_vw node \<longleftrightarrow>
     (\<exists>n pre a b suf. fullyQualifiedName node = Some n \<and> n = pre @ a # b # suf
        \<and> (a = CHR ''v'' \<or> a = CHR ''V'') \<and> (b = CHR ''w'' \<or> b = CHR ''W''))"
proof (cases "fullyQualifiedName node")
  case None
  then show ?thesis by (simp add: has_vw_def lower_def)
next
  case (Some n)
  have "contains ''vw'' (map lower_char n) \<longleftrightarrow>
      (\<exists>pre a b suf. n = pre @ a # b # suf \<and> lower_char a = CHR ''v'' \<and> lower_char b = CHR ''w'')"
  proof
    assume "contains ''vw'' (map lower_char n)"
    then obtain p s where "map lower_char n = p @ ''vw'' @ s" by (auto simp: contains_iff)
    then obtain us a b vs where "n = us @ a # b # vs" "CHR ''v'' = lower_char a"
        "CHR ''w'' = lower_char b"
      by (auto simp: map_eq_append_conv Cons_eq_map_conv)
    then show "\<exists>pre a b suf. n = pre @ a # b # suf \<and> lower_char a = CHR ''v''
        \<and> lower_char b = CHR ''w''"
      by metis
  next
    assume "\<exists>pre a b suf. n = pre @ a # b # suf \<and> lower_char a = CHR ''v''
        \<and> lower_char b = CHR ''w''"
    then obtain pre a b suf where "n = pre @ a # b # suf" "lower_char a = CHR ''v''"
        "lower_char b = CHR ''w''"
      by blast
    then have "map lower_char n = map lower_char pre @ ''vw'' @ map lower_char suf" by simp
    then show "contains ''vw'' (map lower_char n)" unfolding contains_iff by blast
  qed
  with Some show ?thesis by (simp add: has_vw_def lower_def lower_char_v lower_char_w)
qed

subsection \<open>One table\<close>

text \<open>The loop over the nodes appends the same record once for every node that passes the
  name test, provided the two tests on the first edges pass.\<close>

lemma nodes_loop_replicate:
  "nodes_loop i lin ns res =
     res @ replicate
       (if first_edge_lacks_details (downstreamEdges lin)
           \<and> first_edge_lacks_details (upstreamEdges lin)
        then length (filter (\<lambda>n. \<not> has_vw n) ns) else 0)
       \<lparr>result_id = i, linhagem = lin\<rparr>"
  by (induction ns arbitrary: res) simp_all

lemma processar_item_fetched:
  assumes "tableType item \<in> {Some ''Regular'', Some ''Partitioned'', Some ''External''}"
    and "id_key item = Some i" and "get_lineage_by_id srv i = Some lin"
    and "nodes lin = Some ns"
  shows "processar_item srv res item = Inr (nodes_loop i lin ns res)"
  using assms by (cases ns) (auto simp: processar_item_def)

text \<open>
  Claim C2, as the code has it. For an eligible table whose lineage graph was fetched and
  has a list of nodes, the extraction appends some number \<open>k\<close> of records for the table,
  and \<open>k\<close> is zero exactly when every node's name contains \<^verbatim>\<open>vw\<close> in any letter case, or
  the first downstream edge or the first upstream edge has lineage details. So a graph
  is left out for its names only when all of its nodes are named like views; one node
  without \<^verbatim>\<open>vw\<close> in its name keeps the graph.
\<close>

theorem vw_filter_is_per_node:
  assumes "tableType item \<in> {Some ''Regular'', Some ''Partitioned'', Some ''External''}"
    and "id_key item = Some i" and "get_lineage_by_id srv i = Some lin"
    and "nodes lin = Some ns"
  shows "\<exists>k. processar_item srv res item =
               Inr (res @ replicate k \<lparr>result_id = i, linhagem = lin\<rparr>)
           \<and> (k = 0 \<longleftrightarrow>
                list_all has_vw ns \<or> \<not> first_edge_lacks_details (downstreamEdges lin)
                \<or> \<not> first_edge_lacks_details (upstreamEdges lin))"
proof -
  let ?k = "if first_edge_lacks_details (downstreamEdges lin)
               \<and> first_edge_lacks_details (upstreamEdges lin)
            then length (filter (\<lambda>n. \<not> has_vw n) ns) else 0"
  have a: "processar_item srv res item =
      Inr (res @ replicate ?k \<lparr>result_id = i, linhagem = lin\<rparr>)"
    using processar_item_fetched[OF assms] by (simp only: nodes_loop_replicate)
  have b: "?k = 0 \<longleftrightarrow>
      list_all has_vw ns \<or> \<not> first_edge_lacks_details (downstreamEdges lin)
      \<or> \<not> first_edge_lacks_details (upstreamEdges lin)"
    by (auto simp: list_all_iff filter_empty_conv)
  show ?thesis by (rule exI[of _ ?k], rule conjI[OF a b])
qed

theorem vw_filter_is_per_node_witness:
  "tableType table_t1 \<in> {Some ''Regular'', Some ''Partitioned'', Some ''External''}
   \<and> id_key table_t1 = Some ''t1''
   \<and> get_lineage_by_id (serve_lineage mixed_lineage) ''t1'' = Some mixed_lineage
   \<and> nodes mixed_lineage = Some [node_t2, node_view]
   \<and> (\<exists>k. processar_item (serve_lineage mixed_lineage) [] table_t1 =
             Inr ([] @ replicate k \<lparr>result_id = ''t1'', linhagem = mixed_lineage\<rparr>)
           \<and> (k = 0 \<longleftrightarrow>
                list_all has_vw [node_t2, node_view]
                \<or> \<not> first_edge_lacks_details (downstreamEdges mixed_lineage)
                \<or> \<not> first_edge_lacks_details (upstreamEdges mixed_lineage)))"
proof -
  have h1: "tableType table_t1 \<in> {Some ''Regular'', Some ''Partitioned'', Some ''External''}"
    by (simp add: table_t1_def)
  have h2: "id_key table_t1 = Some ''t1''" by (simp add: table_t1_def)
  have h3: "get_lineage_by_id (serve_lineage mixed_lineage) ''t1'' = Some mixed_lineage"
    by (simp add: get_lineage_by_id_def serve_lineage_def)
  have h4: "nodes mixed_lineage = Some [node_t2, node_view]" by (simp add: mixed_lineage_def)
  from vw_filter_is_per_node[OF h1 h2 h3 h4, of "[]"] h1 h2 h3 h4 show ?thesis by blast
qed

text \<open>
  Claim C2, as stated, fails: the graph of table \<^verbatim>\<open>t1\<close> below has the nodes \<^verbatim>\<open>db.t2\<close> and
  \<^verbatim>\<open>db.VW_sales\<close>, the second with \<^verbatim>\<open>VW\<close> in its name, and the extraction keeps the graph.
\<close>

theorem graph_with_view_node_is_kept:
  "has_vw node_view \<and> nodes mixed_lineage = Some [node_t2, node_view]
   \<and> processar_item (serve_lineage mixed_lineage) [] table_t1 =
       Inr [\<lparr>result_id = ''t1'', linhagem = mixed_lineage\<rparr>]"
  by (simp add: processar_item_def get_lineage_by_id_def serve_lineage_def table_t1_def
        first_edge_lacks_details_def has_vw_def lower_def lower_char_def
        mixed_lineage_def node_t2_def node_view_def plain_edge_def)

text \<open>
  Claim C8. For an eligible table whose lineage graph was fetched and has a list of
  nodes, and whose first downstream and first upstream edge (if any) lack lineage
  details, the extraction appends one record for every node whose lower-cased name lacks
  \<^verbatim>\<open>vw\<close>: \<open>k\<close> such nodes give \<open>k\<close> records, all equal, each holding the table's id and the
  whole graph.
\<close>

theorem one_record_per_plain_node:
  assumes "tableType item \<in> {Some ''Regular'', Some ''Partitioned'', Some ''External''}"
    and "id_key item = Some i" and "get_lineage_by_id srv i = Some lin"
    and "nodes lin = Some ns"
    and "first_edge_lacks_details (downstreamEdges lin)"
    and "first_edge_lacks_details (upstreamEdges lin)"
  shows "processar_item srv res item =
           Inr (res @ replicate (length (filter (\<lambda>n. \<not> has_vw n) ns))
                        \<lparr>result_id = i, linhagem = lin\<rparr>)"
  using processar_item_fetched[OF assms(1-4)] assms(5,6)
  by (simp only: nodes_loop_replicate if_True simp_thms)

theorem one_record_per_plain_node_witness:
  "tableType table_t1 \<in> {Some ''Regular'', Some ''Partitioned'', Some ''External''}
   \<and> id_key table_t1 = Some ''t1''
   \<and> get_lineage_by_id (serve_lineage plain_lineage) ''t1'' = Some plain_lineage
   \<and> nodes plain_lineage = Some [node_t2, node_t3]
   \<and> first_edge_lacks_details (downstreamEdges plain_lineage)
   \<and> first_edge_lacks_details (upstreamEdges plain_lineage)
   \<and> processar_item (serve_lineage plain_lineage) [] table_t1 =
       Inr [\<lparr>result_id = ''t1'', linhagem = plain_lineage\<rparr>,
            \<lparr>result_id = ''t1'', linhagem = plain_lineage\<rparr>]"
proof -
  have h1: "tableType table_t1 \<in> {Some ''Regular'', Some ''Partitioned'', Some ''External''}"
    by (simp add: table_t1_def)
  have h2: "id_key table_t1 = Some ''t1''" by (simp add: table_t1_def)
  have h3: "get_lineage_by_id (serve_lineage plain_lineage) ''t1'' = Some plain_lineage"
    by (simp add: get_lineage_by_id_def serve_lineage_def)
  have h4: "nodes plain_lineage = Some [node_t2, node_t3]" by (simp add: plain_lineage_def)
  have h5: "first_edge_lacks_details (downstreamEdges plain_lineage)"
    by (simp add: first_edge_lacks_details_def plain_lineage_def plain_edge_def)
  have h6: "first_edge_lacks_details (upstreamEdges plain_lineage)"
    by (simp add: first_edge_lacks_details_def plain_lineage_def)
  have k: "length (filter (\<lambda>n. \<not> has_vw n) [node_t2, node_t3]) = 2"
    by (simp add: has_vw_def lower_def lower_char_def node_t2_def node_t3_def)
  from one_record_per_plain_node[OF h1 h2 h3 h4 h5 h6, of "[]"] k
  have "processar_item (serve_lineage plain_lineage) [] table_t1 =
       Inr [\<lparr>result_id = ''t1'', linhagem = plain_lineage\<rparr>,
            \<lparr>result_id = ''t1'', linhagem = plain_lineage\<rparr>]"
    by (simp add: numeral_2_eq_2)
  with h1 h2 h3 h4 h5 h6 show ?thesis by blast
qed

lemma first_edge_take1:
  "map_option (take 1) es' = map_option (take 1) es \<Longrightarrow>
   first_edge_lacks_details es' = first_edge_lacks_details es"
  by (cases es; cases es') (auto simp: first_edge_lacks_details_def split: list.splits)

text \<open>The first edge is inspected: details on it leave the graph out.\<close>

lemma first_edge_with_details_drops:
  assumes "downstreamEdges lin = Some (e # es) \<or> upstreamEdges lin = Some (e # es)"
    and "lineageDetails e \<noteq> None"
  shows "nodes_loop i lin ns res = res"
  using assms by (auto simp: nodes_loop_replicate first_edge_lacks_details_def)

text \<open>
  Claim C5. Let two lineage graphs be fetched for the same table, with the same nodes,
  and with downstream and upstream edge lists that are both absent, or both present with
  the same first element (or both empty); the edges at index 1 and later are arbitrary,
  with or without lineage details, in either graph. Then the extraction treats the two
  graphs alike: it raises the same exception or appends the same number of records for
  the table, so one graph is kept exactly when the other is.
\<close>

theorem later_edges_not_inspected:
  assumes "id_key item = Some i"
    and "srv i = Response 200 lin" and "srv' i = Response 200 lin'"
    and "nodes lin' = nodes lin"
    and "map_option (take 1) (downstreamEdges lin') = map_option (take 1) (downstreamEdges lin)"
    and "map_option (take 1) (upstreamEdges lin') = map_option (take 1) (upstreamEdges lin)"
  shows "map_sum (\<lambda>e. e) (map result_id) (processar_item srv' res item) =
         map_sum (\<lambda>e. e) (map result_id) (processar_item srv res item)"
  using assms first_edge_take1[OF assms(5)] first_edge_take1[OF assms(6)]
  by (auto simp: processar_item_def get_lineage_by_id_def nodes_loop_replicate
           split: option.splits)

theorem later_edges_not_inspected_witness:
  "id_key table_t1 = Some ''t1''
   \<and> serve_lineage plain_lineage ''t1'' = Response 200 plain_lineage
   \<and> serve_lineage longer_lineage ''t1'' = Response 200 longer_lineage
   \<and> nodes longer_lineage = nodes plain_lineage
   \<and> map_option (take 1) (downstreamEdges longer_lineage) =
       map_option (take 1) (downstreamEdges plain_lineage)
   \<and> map_option (take 1) (upstreamEdges longer_lineage) =
       map_option (take 1) (upstreamEdges plain_lineage)
   \<and> lineageDetails detailed_edge \<noteq> None
   \<and> map_sum (\<lambda>e. e) (map result_id)
         (processar_item (serve_lineage longer_lineage) [] table_t1) =
       map_sum (\<lambda>e. e) (map result_id)
         (processar_item (serve_lineage plain_lineage) [] table_t1)"
proof -
  have h1: "id_key table_t1 = Some ''t1''" by (simp add: table_t1_def)
  have h2: "serve_lineage plain_lineage ''t1'' = Response 200 plain_lineage"
    by (simp add: serve_lineage_def)
  have h3: "serve_lineage longer_lineage ''t1'' = Response 200 longer_lineage"
    by (simp add: serve_lineage_def)
  have h4: "nodes longer_lineage = nodes plain_lineage"
    by (simp add: longer_lineage_def plain_lineage_def)
  have h5: "map_option (take 1) (downstreamEdges longer_lineage) =
       map_option (take 1) (downstreamEdges plain_lineage)"
    by (simp add: longer_lineage_def plain_lineage_def)
  have h6: "map_option (take 1) (upstreamEdges longer_lineage) =
       map_option (take 1) (upstreamEdges plain_lineage)"
    by (simp add: longer_lineage_def plain_lineage_def)
  have h7: "lineageDetails detailed_edge \<noteq> None" by (simp add: detailed_edge_def)
  from later_edges_not_inspected[where srv = "serve_lineage plain_lineage"
      and srv' = "serve_lineage longer_lineage" and res = "[]", OF h1 h2 h3 h4 h5 h6]
    h1 h2 h3 h4 h5 h6 h7
  show ?thesis by blast
qed

section \<open>Stage 4: the deletion\<close>

subsection \<open>One DELETE call\<close>

lemma exclude_lineage_row:
  "fst (exclude_lineage srv log f t) =
     \<lparr>from_id = f, to_id = t,
      status = (if srv log f t = Response 200 () then ''Deletada com sucesso''
                else ''Erro ao deletar'')\<rparr>"
  by (simp add: exclude_lineage_def split: response.splits)

lemma exclude_lineage_log: "snd (exclude_lineage srv log f t) = log @ [(f, t)]"
  by (simp add: exclude_lineage_def split: response.splits)

lemma exclude_lineage_eq:
  "exclude_lineage srv log f t =
     (\<lparr>from_id = f, to_id = t,
       status = (if srv log f t = Response 200 () then ''Deletada com sucesso''
                 else ''Erro ao deletar'')\<rparr>,
      log @ [(f, t)])"
  using exclude_lineage_row[of srv log f t] exclude_lineage_log[of srv log f t]
  by (metis prod.collapse)

subsection \<open>Loops\<close>

lemma for_each_invariant:
  assumes "for_each body s xs = Inr s'" and "I s"
    and "\<And>s x s'. x \<in> set xs \<Longrightarrow> I s \<Longrightarrow> body s x = Inr s' \<Longrightarrow> I s'"
  shows "I s'"
  using assms
proof (induction xs arbitrary: s)
  case Nil
  then show ?case by simp
next
  case (Cons x xs)
  from Cons.prems(1) obtain s1 where s1: "body s x = Inr s1" "for_each body s1 xs = Inr s'"
    by (auto split: sum.splits)
  have "I s1" by (rule Cons.prems(3)[OF _ Cons.prems(2) s1(1)]) simp
  with s1(2) Cons.prems(3) show ?case by (intro Cons.IH[of s1]) auto
qed

lemma for_each_same_course:
  assumes "same_course (Inr s) (Inr t)"
    and "\<And>s t x. same_course (Inr s) (Inr t) \<Longrightarrow> same_course (body s x) (body' t x)"
  shows "same_course (for_each body s xs) (for_each body' t xs)"
  using assms(1)
proof (induction xs arbitrary: s t)
  case Nil
  then show ?case by simp
next
  case (Cons x xs)
  from assms(2)[OF Cons.prems, of x] show ?case
    by (cases "body s x"; cases "body' t x")
       (auto simp: same_course_def intro: Cons.IH[unfolded same_course_def, simplified])
qed

lemma foldl_same_course_local:
  assumes "same_course_local s t"
    and "\<And>s t x. same_course_local s t \<Longrightarrow> same_course_local (body s x) (body' t x)"
  shows "same_course_local (foldl body s xs) (foldl body' t xs)"
  using assms(1) by (induction xs arbitrary: s t) (simp_all add: assms(2))

subsection \<open>No unordered pair twice (dag\_om.py)\<close>

lemma edge_key_fresh:
  assumes "list_all (pair_done P) rs" and "(a, b) \<notin> P" and "(b, a) \<notin> P"
  shows "{a, b} \<notin> edge_key ` set rs"
proof
  assume "{a, b} \<in> edge_key ` set rs"
  then obtain r where r: "r \<in> set rs" "edge_key r = {a, b}" by auto
  from r(2) have "(from_id r = a \<and> to_id r = b) \<or> (from_id r = b \<and> to_id r = a)"
    by (auto simp: edge_key_def doubleton_eq_iff)
  moreover from assms(1) r(1) have "pair_done P r" by (simp add: list_all_iff)
  ultimately show False using assms(2,3) by (auto simp: pair_done_def)
qed

lemma pair_done_mono: "list_all (pair_done P) rs \<Longrightarrow> list_all (pair_done (insert x P)) rs"
  by (auto simp: list_all_iff pair_done_def)

lemma downstream_step_inv:
  assumes "downstream_step srv item st e = Inr st'" and "dedup_inv st"
  shows "dedup_inv st'"
proof (cases "st' = st")
  case True
  with assms(2) show ?thesis by simp
next
  case False
  with assms(1) obtain t n where t: "toEntity e = Some t"
      "(result_id item, t) \<notin> processed_lineage_pairs st"
      "(t, result_id item) \<notin> processed_lineage_pairs st"
      "processed_lineage_pairs st' = insert (result_id item, t) (processed_lineage_pairs st)"
      "resultados st' = resultados st @ [n]" "from_id n = result_id item" "to_id n = t"
    by (auto simp: downstream_step_def exclude_lineage_eq
             split: option.splits if_splits sum.splits)
  from assms(2) have "list_all (pair_done (processed_lineage_pairs st)) (resultados st)"
    by (simp add: dedup_inv_def)
  then have "{result_id item, t} \<notin> edge_key ` set (resultados st)"
    using t(2,3) by (rule edge_key_fresh)
  moreover have "edge_key n = {result_id item, t}" using t(6,7) by (simp add: edge_key_def)
  moreover have "pair_done (processed_lineage_pairs st') n"
    using t(4,6,7) by (simp add: pair_done_def)
  ultimately show ?thesis
    using assms(2) t(4,5) pair_done_mono by (auto simp: dedup_inv_def)
qed

lemma upstream_step_inv:
  assumes "upstream_step srv item st e = Inr st'" and "dedup_inv st"
  shows "dedup_inv st'"
proof (cases "st' = st")
  case True
  with assms(2) show ?thesis by simp
next
  case False
  with assms(1) obtain t n where t: "fromEntity e = Some t"
      "(result_id item, t) \<notin> processed_lineage_pairs st"
      "(t, result_id item) \<notin> processed_lineage_pairs st"
      "processed_lineage_pairs st' = insert (t, result_id item) (processed_lineage_pairs st)"
      "resultados st' = resultados st @ [n]" "from_id n = result_id item" "to_id n = t"
    by (auto simp: upstream_step_def exclude_lineage_eq
             split: option.splits if_splits sum.splits)
  from assms(2) have "list_all (pair_done (processed_lineage_pairs st)) (resultados st)"
    by (simp add: dedup_inv_def)
  then have "{result_id item, t} \<notin> edge_key ` set (resultados st)"
    using t(2,3) by (rule edge_key_fresh)
  moreover have "edge_key n = {result_id item, t}" using t(6,7) by (simp add: edge_key_def)
  moreover have "pair_done (processed_lineage_pairs st') n"
    using t(4,6,7) by (simp add: pair_done_def)
  ultimately show ?thesis
    using assms(2) t(4,5) pair_done_mono by (auto simp: dedup_inv_def)
qed

lemma item_step_inv:
  assumes "item_step srv st item = Inr st'" and "dedup_inv st"
  shows "dedup_inv st'"
proof -
  from assms(1) obtain st1 where
    d: "for_each (downstream_step srv item) st
          (edges_or_empty (downstreamEdges (linhagem item))) = Inr st1"
    and u: "for_each (upstream_step srv item) st1
          (edges_or_empty (upstreamEdges (linhagem item))) = Inr st'"
    by (auto simp: item_step_def split: sum.splits)
  have "dedup_inv st1"
    by (rule for_each_invariant[where I = dedup_inv, OF d assms(2)]) (rule downstream_step_inv)
  then show ?thesis
    by (rule for_each_invariant[where I = dedup_inv, OF u]) (rule upstream_step_inv)
qed

text \<open>
  The deletion of dag\_om.py, started with any set of processed pairs, ends with rows
  for pairwise different unordered pairs of identifiers.
\<close>

lemma delete_lineage_distinct_pairs:
  assumes "delete_lineage srv P items = Inr st"
  shows "distinct (map edge_key (resultados st))"
proof -
  have "dedup_inv \<lparr>processed_lineage_pairs = P, resultados = [], calls = []\<rparr>"
    by (simp add: dedup_inv_def)
  with assms have "dedup_inv st"
    unfolding delete_lineage_def
    by (rule for_each_invariant[where I = dedup_inv]) (rule item_step_inv)
  then show ?thesis by (simp add: dedup_inv_def)
qed

lemma dag_variant_one_row:
  "delete_lineage accepting_server {} [item_a, item_b] =
     Inr \<lparr>processed_lineage_pairs = {(''A'', ''B'')},
          resultados = [\<lparr>from_id = ''A'', to_id = ''B'', status = ''Deletada com sucesso'',
                         from_fully_qualified_name = ''db.a'',
                         to_fully_qualified_name = ''db.b''\<rparr>],
          calls = [(''A'', ''B'')]\<rparr>"
  by (simp add: edge_a_b_def item_a_def item_b_def accepting_server_def edges_or_empty_def
        exclude_lineage_def delete_lineage_def item_step_def downstream_step_def
        upstream_step_def entity_name_def)

text \<open>
  Claim C1 fails in deletarlinhagem.py. The input holds the edge from \<^verbatim>\<open>A\<close> to \<^verbatim>\<open>B\<close>
  once as a downstream edge of table \<^verbatim>\<open>A\<close> and once as an upstream edge of table \<^verbatim>\<open>B\<close>.
  The deletion of deletarlinhagem.py issues the same DELETE call twice and writes two
  rows for the unordered pair of \<^verbatim>\<open>A\<close> and \<^verbatim>\<open>B\<close>. (The deletion of dag\_om.py writes one:
  \<open>dag_variant_one_row\<close>, and \<open>delete_lineage_distinct_pairs\<close> for every input.)
\<close>

theorem local_variant_repeats_pair:
  "delete_lineage_local accepting_server [item_a, item_b] =
     ([\<lparr>from_id = ''A'', to_id = ''B'', status = ''Deletada com sucesso''\<rparr>,
       \<lparr>from_id = ''B'', to_id = ''A'', status = ''Deletada com sucesso''\<rparr>],
      [(''A'', ''B''), (''A'', ''B'')])
   \<and> \<not> distinct (map edge_key (fst (delete_lineage_local accepting_server [item_a, item_b])))"
  by (simp add: edge_a_b_def item_a_def item_b_def accepting_server_def
        delete_lineage_local_def item_step_local_def downstream_step_local_def
        upstream_step_local_def edges_or_empty_def exclude_lineage_def edge_key_def
        insert_commute)

subsection \<open>Upstream edges\<close>

lemma upstream_step_b:
  "upstream_step accepting_server item_b fresh_state edge_a_b =
     Inr \<lparr>processed_lineage_pairs = {(''A'', ''B'')},
          resultados = [\<lparr>from_id = ''B'', to_id = ''A'', status = ''Deletada com sucesso'',
                         from_fully_qualified_name = ''db.b'',
                         to_fully_qualified_name = ''db.a''\<rparr>],
          calls = [(''A'', ''B'')]\<rparr>"
  by (simp add: edge_a_b_def item_b_def accepting_server_def fresh_state_def
        exclude_lineage_def upstream_step_def entity_name_def)

text \<open>Over the whole stage of dag\_om.py, every DELETE call is one that an edge of the
  input stands for; an upstream edge never gives a call from the table to the upstream
  entity.\<close>

lemma item_calls_down:
  "e \<in> set (edges_or_empty (downstreamEdges (linhagem item))) \<Longrightarrow> toEntity e = Some t
   \<Longrightarrow> (result_id item, t) \<in> item_calls item"
  by (auto simp: item_calls_def)

lemma item_calls_up:
  "e \<in> set (edges_or_empty (upstreamEdges (linhagem item))) \<Longrightarrow> fromEntity e = Some x
   \<Longrightarrow> (x, result_id item) \<in> item_calls item"
  by (auto simp: item_calls_def)

lemma downstream_step_calls:
  assumes "downstream_step srv item st e = Inr st'"
  shows "calls st' = calls st
         \<or> (\<exists>t. toEntity e = Some t \<and> calls st' = calls st @ [(result_id item, t)])"
  using assms
  by (auto simp: downstream_step_def exclude_lineage_eq split: option.splits if_splits sum.splits)

lemma upstream_step_calls:
  assumes "upstream_step srv item st e = Inr st'"
  shows "calls st' = calls st
         \<or> (\<exists>x. fromEntity e = Some x \<and> calls st' = calls st @ [(x, result_id item)])"
  using assms
  by (auto simp: upstream_step_def exclude_lineage_eq split: option.splits if_splits sum.splits)

lemma item_step_calls:
  assumes "item_step srv st item = Inr st'" and "set (calls st) \<subseteq> C" and "item_calls item \<subseteq> C"
  shows "set (calls st') \<subseteq> C"
proof -
  from assms(1) obtain st1 where
    d: "for_each (downstream_step srv item) st
          (edges_or_empty (downstreamEdges (linhagem item))) = Inr st1"
    and u: "for_each (upstream_step srv item) st1
          (edges_or_empty (upstreamEdges (linhagem item))) = Inr st'"
    by (auto simp: item_step_def split: sum.splits)
  have "set (calls st1) \<subseteq> C"
  proof (rule for_each_invariant[where I = "\<lambda>s. set (calls s) \<subseteq> C", OF d assms(2)])
    fix s e s'
    assume "e \<in> set (edges_or_empty (downstreamEdges (linhagem item)))"
      and "set (calls s) \<subseteq> C" and "downstream_step srv item s e = Inr s'"
    with assms(3) downstream_step_calls[of srv item s e s'] item_calls_down[of e item]
    show "set (calls s') \<subseteq> C"
      by auto
  qed
  then show ?thesis
  proof (rule for_each_invariant[where I = "\<lambda>s. set (calls s) \<subseteq> C", OF u])
    fix s e s'
    assume "e \<in> set (edges_or_empty (upstreamEdges (linhagem item)))"
      and "set (calls s) \<subseteq> C" and "upstream_step srv item s e = Inr s'"
    with assms(3) upstream_step_calls[of srv item s e s'] item_calls_up[of e item]
    show "set (calls s') \<subseteq> C"
      by auto
  qed
qed

lemma delete_lineage_calls:
  assumes "delete_lineage srv P items = Inr st"
  shows "set (calls st) \<subseteq> (\<Union>item \<in> set items. item_calls item)"
proof -
  let ?C = "\<Union>item \<in> set items. item_calls item"
  have "set (calls \<lparr>processed_lineage_pairs = P, resultados = [], calls = []\<rparr>) \<subseteq> ?C"
    by simp
  with assms[unfolded delete_lineage_def] show ?thesis
  proof (rule for_each_invariant[where I = "\<lambda>s. set (calls s) \<subseteq> ?C"])
    fix s item s'
    assume "item \<in> set items" and "set (calls s) \<subseteq> ?C" and "item_step srv s item = Inr s'"
    then show "set (calls s') \<subseteq> ?C" using item_step_calls[of srv s item s' ?C] by blast
  qed
qed

text \<open>
  Claim C4. Let an upstream edge with \<^verbatim>\<open>fromEntity\<close> \<open>X\<close> be processed for a filter result
  with table id \<open>T\<close>, in any state of the deletion and against any server. In dag\_om.py,
  unless the step raises for a missing entity name (before any call), the log of DELETE
  calls grows by exactly the call for \<open>(X, T)\<close> when both ids are non-empty and the pair
  is in the set of processed pairs in neither order, and does not grow otherwise; in
  deletarlinhagem.py it grows by exactly the call for \<open>(X, T)\<close> when both ids are
  non-empty. No other call is made for the edge, so none for \<open>(T, X)\<close>.
\<close>

theorem upstream_delete_call_order:
  assumes "fromEntity e = Some X" and "result_id item = T"
  shows "(\<forall>st'. upstream_step srv item st e = Inr st' \<longrightarrow>
            calls st' =
              calls st @
                (if T \<noteq> [] \<and> X \<noteq> [] \<and> (T, X) \<notin> processed_lineage_pairs st
                    \<and> (X, T) \<notin> processed_lineage_pairs st
                 then [(X, T)] else []))
       \<and> snd (upstream_step_local srv item ls e) =
           snd ls @ (if T \<noteq> [] \<and> X \<noteq> [] then [(X, T)] else [])"
  using assms
  by (auto simp: upstream_step_def upstream_step_local_def exclude_lineage_eq
           split: sum.splits)

theorem upstream_delete_call_order_witness:
  "fromEntity edge_a_b = Some ''A'' \<and> result_id item_b = ''B''
   \<and> (\<exists>st'. upstream_step accepting_server item_b fresh_state edge_a_b = Inr st'
          \<and> calls st' = [(''A'', ''B'')])
   \<and> snd (upstream_step_local accepting_server item_b ([], []) edge_a_b) = [(''A'', ''B'')]"
proof -
  have h1: "fromEntity edge_a_b = Some ''A''" by (simp add: edge_a_b_def)
  have h2: "result_id item_b = ''B''" by (simp add: item_b_def)
  note t = upstream_delete_call_order[where srv = accepting_server and st = fresh_state
      and ls = "([], [])", OF h1 h2]
  from t[THEN conjunct1, rule_format, OF upstream_step_b]
  have c: "calls \<lparr>processed_lineage_pairs = {(''A'', ''B'')},
          resultados = [\<lparr>from_id = ''B'', to_id = ''A'', status = ''Deletada com sucesso'',
                         from_fully_qualified_name = ''db.b'',
                         to_fully_qualified_name = ''db.a''\<rparr>],
          calls = [(''A'', ''B'')]\<rparr> = [(''A'', ''B'')]"
    by simp
  from t[THEN conjunct2]
  have l: "snd (upstream_step_local accepting_server item_b ([], []) edge_a_b) =
      [(''A'', ''B'')]"
    by simp
  from h1 h2 upstream_step_b c l show ?thesis by simp
qed

text \<open>
  Claim C10. Whenever the deletion of dag\_om.py appends a row for an upstream edge, the
  row's \<^verbatim>\<open>from_id\<close> is the id of the current table, its \<^verbatim>\<open>to_id\<close> is the edge's
  \<^verbatim>\<open>fromEntity\<close>, and the DELETE call made for it has the two the other way round:
  \<^verbatim>\<open>to_id\<close> first, \<^verbatim>\<open>from_id\<close> second.
\<close>

theorem upstream_row_reverses_call:
  assumes "upstream_step srv item st e = Inr st'" and "resultados st' \<noteq> resultados st"
  shows "\<exists>r. resultados st' = resultados st @ [r] \<and> from_id r = result_id item
           \<and> fromEntity e = Some (to_id r)
           \<and> calls st' = calls st @ [(to_id r, from_id r)]"
  using assms
  by (auto simp: upstream_step_def exclude_lineage_eq
           split: option.splits if_splits sum.splits)

theorem upstream_row_reverses_call_witness:
  "\<exists>st'. upstream_step accepting_server item_b fresh_state edge_a_b = Inr st'
     \<and> resultados st' \<noteq> resultados fresh_state
     \<and> (\<exists>r. resultados st' = resultados fresh_state @ [r] \<and> from_id r = ''B''
            \<and> to_id r = ''A'' \<and> calls st' = calls fresh_state @ [(''A'', ''B'')])"
proof -
  let ?st = "\<lparr>processed_lineage_pairs = {(''A'', ''B'')},
          resultados = [\<lparr>from_id = ''B'', to_id = ''A'', status = ''Deletada com sucesso'',
                         from_fully_qualified_name = ''db.b'',
                         to_fully_qualified_name = ''db.a''\<rparr>],
          calls = [(''A'', ''B'')]\<rparr>"
  have n: "resultados ?st \<noteq> resultados fresh_state" by (simp add: fresh_state_def)
  from upstream_row_reverses_call[OF upstream_step_b n]
  obtain r where r: "resultados ?st = resultados fresh_state @ [r]"
     "from_id r = result_id item_b" "fromEntity edge_a_b = Some (to_id r)"
     "calls ?st = calls fresh_state @ [(to_id r, from_id r)]"
    by blast
  from r(2) have "from_id r = ''B''" by (simp add: item_b_def)
  moreover from r(3) have "to_id r = ''A''" by (simp add: edge_a_b_def)
  ultimately show ?thesis using upstream_step_b n r(1,4) by auto
qed

subsection \<open>Failed DELETE calls\<close>

lemma downstream_step_same_course:
  assumes "same_course (Inr s) (Inr t)"
  shows "same_course (downstream_step srv item s e) (downstream_step srv' item t e)"
  using assms
  by (auto simp: same_course_def downstream_step_def exclude_lineage_eq row_key_def
           split: option.splits sum.splits)

lemma upstream_step_same_course:
  assumes "same_course (Inr s) (Inr t)"
  shows "same_course (upstream_step srv item s e) (upstream_step srv' item t e)"
  using assms
  by (auto simp: same_course_def upstream_step_def exclude_lineage_eq row_key_def
           split: option.splits sum.splits)

lemma item_step_same_course:
  assumes "same_course (Inr s) (Inr t)"
  shows "same_course (item_step srv s item) (item_step srv' t item)"
proof -
  let ?d = "edges_or_empty (downstreamEdges (linhagem item))"
  let ?u = "edges_or_empty (upstreamEdges (linhagem item))"
  have d: "same_course (for_each (downstream_step srv item) s ?d)
             (for_each (downstream_step srv' item) t ?d)"
    using assms by (rule for_each_same_course) (rule downstream_step_same_course)
  show ?thesis
  proof (cases "for_each (downstream_step srv item) s ?d")
    case (Inl e)
    with d show ?thesis by (auto simp: item_step_def same_course_def split: sum.splits)
  next
    case (Inr s1)
    with d obtain t1 where t1: "for_each (downstream_step srv' item) t ?d = Inr t1"
      and c: "same_course (Inr s1) (Inr t1)"
      by (cases "for_each (downstream_step srv' item) t ?d") (auto simp: same_course_def)
    from c have "same_course (for_each (upstream_step srv item) s1 ?u)
                   (for_each (upstream_step srv' item) t1 ?u)"
      by (rule for_each_same_course) (rule upstream_step_same_course)
    with Inr t1 show ?thesis by (simp add: item_step_def)
  qed
qed

lemma delete_lineage_same_course:
  "same_course (delete_lineage srv P items) (delete_lineage srv' P items)"
  unfolding delete_lineage_def
  by (rule for_each_same_course)
     (simp_all add: same_course_def item_step_same_course[unfolded same_course_def, simplified])

lemma downstream_step_local_same:
  "same_course_local s t \<Longrightarrow>
   same_course_local (downstream_step_local srv item s e) (downstream_step_local srv' item t e)"
  by (auto simp: same_course_local_def downstream_step_local_def exclude_lineage_eq row_key_def
           split: option.splits)

lemma upstream_step_local_same:
  "same_course_local s t \<Longrightarrow>
   same_course_local (upstream_step_local srv item s e) (upstream_step_local srv' item t e)"
  by (auto simp: same_course_local_def upstream_step_local_def exclude_lineage_eq row_key_def
           split: option.splits)

lemma item_step_local_same:
  "same_course_local s t \<Longrightarrow>
   same_course_local (item_step_local srv s item) (item_step_local srv' t item)"
  unfolding item_step_local_def
  by (intro foldl_same_course_local upstream_step_local_same downstream_step_local_same)

lemma delete_lineage_local_same:
  "same_course_local (delete_lineage_local srv items) (delete_lineage_local srv' items)"
  unfolding delete_lineage_local_def
  by (rule foldl_same_course_local)
     (simp_all add: same_course_local_def item_step_local_same[unfolded same_course_local_def])

text \<open>
  Claim C6. \<open>exclude_lineage\<close> always returns a row: its status is
  \<^verbatim>\<open>Deletada com sucesso\<close> when the response has status 200 (the success status of the
  code) and \<^verbatim>\<open>Erro ao deletar\<close> for every other status and for a transport exception.
  The responses have no influence on the course of the deletion: against any two
  servers, in both variants, the stage makes the same DELETE calls in the same order and
  writes rows for the same pairs, so a failed call never stops the processing of the
  edges that remain.
\<close>

theorem exclude_lineage_contains_failures:
  "fst (exclude_lineage srv log f t) =
     \<lparr>from_id = f, to_id = t,
      status = (if srv log f t = Response 200 () then ''Deletada com sucesso''
                else ''Erro ao deletar'')\<rparr>
   \<and> same_course (delete_lineage srv P items) (delete_lineage srv' P items)
   \<and> same_course_local (delete_lineage_local srv items) (delete_lineage_local srv' items)"
  by (intro conjI exclude_lineage_row delete_lineage_same_course delete_lineage_local_same)

theorem exclude_lineage_contains_failures_witness:
  "status (fst (exclude_lineage refusing_server [] ''A'' ''B'')) = ''Erro ao deletar''
   \<and> status (fst (exclude_lineage accepting_server [] ''A'' ''B'')) = ''Deletada com sucesso''
   \<and> same_course (delete_lineage refusing_server {} [item_a, item_b])
        (delete_lineage accepting_server {} [item_a, item_b])
   \<and> same_course_local (delete_lineage_local refusing_server [item_a, item_b])
        (delete_lineage_local accepting_server [item_a, item_b])"
proof -
  note t = exclude_lineage_contains_failures[where srv = refusing_server and log = "[]"
      and f = "''A''" and t = "''B''" and P = "{}" and items = "[item_a, item_b]"
      and srv' = accepting_server]
  note u = exclude_lineage_contains_failures[where srv = accepting_server and log = "[]"
      and f = "''A''" and t = "''B''" and P = "{}" and items = "[item_a, item_b]"
      and srv' = accepting_server]
  from t[THEN conjunct1]
  have a: "status (fst (exclude_lineage refusing_server [] ''A'' ''B'')) = ''Erro ao deletar''"
    by (simp add: refusing_server_def)
  from u[THEN conjunct1]
  have b: "status (fst (exclude_lineage accepting_server [] ''A'' ''B'')) =
      ''Deletada com sucesso''"
    by (simp add: accepting_server_def)
  from a b t[THEN conjunct2] show ?thesis by simp
qed

end
